theory Spec2Isabelle
  imports
    Main
    "HOL-Library.AList"
    "HOL-Library.Multiset"
    "HOL-Library.Sublist"
    "HOL-Library.Char_ord"
    "HOL-Library.List_Lexorder"
begin

section \<open>Data model of package automata\<close>

text \<open>
  The Go types are
  \<^verbatim>\<open>type automata struct { beginning node; nodes map[string]node }\<close> and
  \<^verbatim>\<open>type node struct { Name string; Transitions map[string][]node; Final bool }\<close>.

  A Go map is a reference: copying a \<^verbatim>\<open>node\<close> copies the name, the flag and the
  reference to the transition table, never the table. The tables therefore live in a store,
  a list of tables addressed by position, and a node holds \<open>None\<close> for the nil map or
  \<open>Some a\<close> for the table at address \<open>a\<close>. Nodes that reach one another in a cycle are
  nodes whose tables mention each other's addresses. A table is an association list with
  one entry per key; slices of nodes are lists.

  A run-time panic of Go is a value of type \<open>panic\<close>, returned on the left of a sum.
\<close>

datatype panic = NilMapAssignment | IndexOutOfRange | NegativeWaitGroup

record node =
  Name :: string
  Transitions :: "nat option"
  Final :: bool

type_synonym edges = "(string \<times> node list) list"

type_synonym heap = "edges list"

record automata =
  beginning :: node
  nodes :: "(string \<times> node) list option"

type_synonym world = "heap \<times> automata"

text \<open>The zero values that \<^verbatim>\<open>new(node)\<close>, \<^verbatim>\<open>new(automata)\<close> and a failed map lookup give.\<close>

definition zero_node :: node where
  "zero_node = \<lparr>Name = [], Transitions = None, Final = False\<rparr>"

definition new_automata :: automata where
  "new_automata = \<lparr>beginning = zero_node, nodes = None\<rparr>"

definition and_then :: "panic + 'a \<Rightarrow> ('a \<Rightarrow> panic + 'b) \<Rightarrow> panic + 'b" where
  "and_then r f = (case r of Inl p \<Rightarrow> Inl p | Inr x \<Rightarrow> f x)"

fun for_each :: "('a \<Rightarrow> 's \<Rightarrow> panic + 's) \<Rightarrow> 'a list \<Rightarrow> 's \<Rightarrow> panic + 's" where
  "for_each body [] s = Inr s"
| "for_each body (x # xs) s = and_then (body x s) (for_each body xs)"

subsection \<open>Reading and writing transition tables\<close>

text \<open>
  \<open>map_at\<close> is the table behind a reference; the nil map reads as the empty table.
  \<open>index_edges h n a\<close> is Go's \<^verbatim>\<open>v, ok := n.Transitions[a]\<close>: \<open>None\<close> when \<open>ok\<close> is
  false. \<open>slice_of\<close> is the value of such a lookup where the code ignores \<open>ok\<close>: the nil
  slice for a missing key. \<open>store_edges\<close> is \<^verbatim>\<open>n.Transitions[a] = v\<close>, which panics on the
  nil map. Addresses come from \<open>make\<close> alone, so an address outside the store does not
  arise; the model treats one like the nil map.
\<close>

definition map_at :: "heap \<Rightarrow> nat option \<Rightarrow> edges" where
  "map_at h r = (case r of None \<Rightarrow> [] | Some a \<Rightarrow> if a < length h then h ! a else [])"

definition index_edges :: "heap \<Rightarrow> node \<Rightarrow> string \<Rightarrow> node list option" where
  "index_edges h n a = map_of (map_at h (Transitions n)) a"

definition slice_of :: "node list option \<Rightarrow> node list" where
  "slice_of r = (case r of None \<Rightarrow> [] | Some ns \<Rightarrow> ns)"

definition store_edges :: "heap \<Rightarrow> node \<Rightarrow> string \<Rightarrow> node list \<Rightarrow> panic + heap" where
  "store_edges h n a v =
     (case Transitions n of
        None \<Rightarrow> Inl NilMapAssignment
      | Some r \<Rightarrow>
          if r < length h then Inr (h[r := AList.update a v (h ! r)])
          else Inl NilMapAssignment)"

definition index_nodes :: "automata \<Rightarrow> string \<Rightarrow> node option" where
  "index_nodes automata a = (case nodes automata of None \<Rightarrow> None | Some m \<Rightarrow> map_of m a)"

subsection \<open>Ranging over a map\<close>

text \<open>
  Go leaves the order in which \<^verbatim>\<open>range\<close> visits a map unspecified. The order is a
  parameter of the model: a function that rearranges the keys of the map. \<open>range_map\<close>
  visits the entries in that order. \<open>permutes_keys\<close> says that the order visits every key
  once, which is what Go guarantees.
\<close>

type_synonym range_order = "string list \<Rightarrow> string list"

definition range_map :: "range_order \<Rightarrow> (string \<times> 'v) list \<Rightarrow> (string \<times> 'v) list" where
  "range_map ord m = List.map_filter (\<lambda>k. map_option (Pair k) (map_of m k)) (ord (map fst m))"

definition permutes_keys :: "range_order \<Rightarrow> bool" where
  "permutes_keys ord = (\<forall>ks. mset (ord ks) = mset ks)"

section \<open>Construction\<close>

text \<open>
  \<^verbatim>\<open>CreateNode\<close> makes a node with a fresh, empty table and stores a copy of it under its
  name in \<^verbatim>\<open>automata.nodes\<close>. That store panics when \<^verbatim>\<open>automata.nodes\<close> is the nil map.
  The result is the new node.
\<close>

definition CreateNode :: "world \<Rightarrow> string \<Rightarrow> panic + world \<times> node" where
  "CreateNode w a =
     (case w of (h, automata) \<Rightarrow>
        let newNode = \<lparr>Name = a, Transitions = Some (length h), Final = False\<rparr>;
            h' = h @ [[]]
        in case nodes automata of
             None \<Rightarrow> Inl NilMapAssignment
           | Some m \<Rightarrow> Inr ((h', automata\<lparr>nodes := Some (AList.update a newNode m)\<rparr>), newNode))"

text \<open>
  \<^verbatim>\<open>AddTransition\<close> looks both names up first, creates the missing nodes, and then
  computes the destination slice \<^verbatim>\<open>end\<close> for the symbol. \<^verbatim>\<open>end\<close> is a local variable:
  the source never stores it back into \<^verbatim>\<open>startNode.Transitions\<close>.
\<close>

definition AddTransition :: "world \<Rightarrow> string \<times> string \<times> string \<Rightarrow> panic + world \<times> node" where
  "AddTransition w newTransition =
     (case newTransition of (t0, t1, t2) \<Rightarrow>
        let containsStart = index_nodes (snd w) t0;
            containsEnd = index_nodes (snd w) t2
        in and_then (case containsStart of Some n \<Rightarrow> Inr (w, n) | None \<Rightarrow> CreateNode w t0)
             (\<lambda>(w, startNode).
                and_then (case containsEnd of Some n \<Rightarrow> Inr (w, n) | None \<Rightarrow> CreateNode w t2)
                  (\<lambda>(w, endNode).
                     let endSlice = (case index_edges (fst w) startNode t1 of
                                       None \<Rightarrow> [endNode]
                                     | Some e \<Rightarrow> e @ [endNode])
                     in Inr (w, endNode))))"

text \<open>
  The loop of \<^verbatim>\<open>MakeAutomata\<close> over the finish map: \<^verbatim>\<open>finishNode\<close> is a copy of the
  map's value, and setting its flag changes the copy alone.
\<close>

definition mark_finish :: "string \<times> bool \<Rightarrow> automata \<Rightarrow> automata" where
  "mark_finish entry automata =
     (case entry of (name, isFinish) \<Rightarrow>
        if isFinish then
          (let finishNode = (case index_nodes automata name of None \<Rightarrow> zero_node | Some n \<Rightarrow> n);
               finishNode = finishNode\<lparr>Final := True\<rparr>
           in automata)
        else automata)"

definition MakeAutomata ::
  "range_order \<Rightarrow> heap \<Rightarrow> (string \<times> string \<times> string) list \<Rightarrow> string \<Rightarrow> string list \<Rightarrow> panic + world"
where
  "MakeAutomata ord h transitions beginningName finishStates =
     (let automata = new_automata in
      and_then (for_each (\<lambda>newTransition w. map_sum id fst (AddTransition w newTransition))
                  transitions (h, automata))
        (\<lambda>(h, automata).
           let finishMap = fold (\<lambda>f m. AList.update f True m) finishStates [];
               automata = fold mark_finish (range_map ord finishMap) automata
           in case index_nodes automata beginningName of
                Some beginningNode \<Rightarrow> Inr (h, automata\<lparr>beginning := beginningNode\<rparr>)
              | None \<Rightarrow>
                  and_then (CreateNode (h, automata) beginningName)
                    (\<lambda>((h, automata), beginningNode).
                       Inr (h, automata\<lparr>beginning := beginningNode\<rparr>))))"

section \<open>Epsilon closure\<close>

text \<open>The epsilon symbol is the string of one space.\<close>

definition epsilon :: string where
  "epsilon = '' ''"

text \<open>
  \<^verbatim>\<open>epsilonRecursive\<close> enters the node under its name into the map \<^verbatim>\<open>eTransitions\<close> and
  calls itself on every epsilon successor whose name is not yet a key. \<open>epsilonRange\<close> is
  its \<^verbatim>\<open>for\<close> loop over the successors. The map is the result.
\<close>

function epsilonRecursive :: "heap \<Rightarrow> node \<Rightarrow> (string \<times> node) list \<Rightarrow> (string \<times> node) list"
  and epsilonRange :: "heap \<Rightarrow> node list \<Rightarrow> (string \<times> node) list \<Rightarrow> (string \<times> node) list"
where
  "epsilonRecursive h inputNode eTransitions =
     epsilonRange h (slice_of (index_edges h inputNode epsilon))
       (AList.update (Name inputNode) inputNode eTransitions)"
| "epsilonRange h [] eTransitions = eTransitions"
| "epsilonRange h (node # rest) eTransitions =
     (let checked = (map_of eTransitions (Name node) \<noteq> None) in
      if \<not> checked then epsilonRange h rest (epsilonRecursive h node eTransitions)
      else epsilonRange h rest eTransitions)"
  by pat_completeness auto

text \<open>
  Termination: the store is finite, so the names of the nodes in its slices are finitely
  many, and every call of \<^verbatim>\<open>epsilonRecursive\<close> from the loop adds a name that was not a
  key before. The map only grows.
\<close>

definition heap_nodes :: "heap \<Rightarrow> node list" where
  "heap_nodes h = concat (map snd (concat h))"

definition unseen :: "heap \<Rightarrow> node list \<Rightarrow> (string \<times> node) list \<Rightarrow> nat" where
  "unseen h ns e = card ((Name ` set (heap_nodes h) \<union> Name ` set ns) - fst ` set e)"

lemma map_at_subset: "(a, ns) \<in> set (map_at h r) \<Longrightarrow> set ns \<subseteq> set (heap_nodes h)"
  by (auto simp: map_at_def heap_nodes_def split: option.splits if_splits
      intro!: bexI[of _ "(a, ns)"] bexI[of _ "h ! _"])

lemma index_edges_subset: "set (slice_of (index_edges h n a)) \<subseteq> set (heap_nodes h)"
proof (cases "index_edges h n a")
  case None
  then show ?thesis by (simp add: slice_of_def)
next
  case (Some ns)
  then have "(a, ns) \<in> set (map_at h (Transitions n))"
    by (auto simp: index_edges_def dest: map_of_SomeD)
  then show ?thesis using Some by (simp add: slice_of_def map_at_subset)
qed

lemma keys_update: "fst ` set (AList.update k v e) = insert k (fst ` set e)"
  using dom_update[of k v e] by (simp add: dom_map_of_conv_image_fst)

lemma epsilon_keys_grow:
  "epsilonRecursive_epsilonRange_dom (Inl (h, n, e)) \<Longrightarrow>
     fst ` set e \<subseteq> fst ` set (epsilonRecursive h n e)"
  "epsilonRecursive_epsilonRange_dom (Inr (h, ns, e)) \<Longrightarrow>
     fst ` set e \<subseteq> fst ` set (epsilonRange h ns e)"
proof (induction rule: epsilonRecursive_epsilonRange.pinduct)
  case (1 h inputNode eTransitions)
  then show ?case by (simp add: epsilonRecursive.psimps keys_update subset_iff)
next
  case (2 h eTransitions)
  then show ?case by (simp add: epsilonRange.psimps)
next
  case (3 h node rest eTransitions)
  then show ?case by (simp add: epsilonRange.psimps Let_def split: if_splits) blast
qed

lemma unseen_mono:
  "Name ` set ns \<subseteq> Name ` set (heap_nodes h) \<union> Name ` set ns' \<Longrightarrow>
   fst ` set e \<subseteq> fst ` set e' \<Longrightarrow> unseen h ns e' \<le> unseen h ns' e"
  unfolding unseen_def by (rule card_mono) auto

lemma unseen_fresh:
  assumes "map_of e (Name n) = None"
  shows "Suc (unseen h [] (AList.update (Name n) n e)) \<le> unseen h (n # ns) e"
proof -
  let ?A = "(Name ` set (heap_nodes h) \<union> Name ` set ([]::node list))
              - fst ` set (AList.update (Name n) n e)"
  let ?B = "(Name ` set (heap_nodes h) \<union> Name ` set (n # ns)) - fst ` set e"
  from assms have notin: "Name n \<notin> fst ` set e"
    by (simp add: map_of_eq_None_iff)
  have "Name n \<notin> ?A" by (simp add: keys_update)
  moreover have "finite ?A" by simp
  ultimately have "card (insert (Name n) ?A) = Suc (card ?A)" by simp
  moreover have "insert (Name n) ?A \<subseteq> ?B" using notin by (auto simp: keys_update)
  then have "card (insert (Name n) ?A) \<le> card ?B" by (intro card_mono) auto
  ultimately show ?thesis by (simp add: unseen_def)
qed

termination epsilonRecursive
proof (relation "inv_image (less_than <*lex*> less_than <*lex*> less_than)
    (\<lambda>x. case x of
            Inl (h, n, e) \<Rightarrow> (Suc (unseen h [] (AList.update (Name n) n e)), 0::nat, 0::nat)
          | Inr (h, ns, e) \<Rightarrow> (unseen h ns e, 1, length ns))", goal_cases)
  case 1
  show ?case by auto
next
  case (2 h inputNode eTransitions)
  have "unseen h (slice_of (index_edges h inputNode epsilon))
          (AList.update (Name inputNode) inputNode eTransitions)
        \<le> unseen h [] (AList.update (Name inputNode) inputNode eTransitions)"
    using index_edges_subset[of h inputNode epsilon] by (intro unseen_mono) auto
  then show ?case by simp
next
  case (3 h node rest eTransitions x)
  then have "map_of eTransitions (Name node) = None" by simp
  from unseen_fresh[OF this, of h rest] show ?case by auto
next
  case (4 h node rest eTransitions x)
  have "unseen h rest (epsilonRecursive h node eTransitions) \<le> unseen h (node # rest) eTransitions"
    using epsilon_keys_grow(1)[OF 4(3)] by (intro unseen_mono) auto
  then show ?case by auto
next
  case (5 h node rest eTransitions x)
  have "unseen h rest eTransitions \<le> unseen h (node # rest) eTransitions"
    by (intro unseen_mono) auto
  then show ?case by auto
qed

text \<open>
  \<^verbatim>\<open>EpsilonClosure\<close> starts from an empty map and returns its values, in the order in
  which \<^verbatim>\<open>range\<close> visits the map.
\<close>

definition EpsilonClosure :: "range_order \<Rightarrow> heap \<Rightarrow> node \<Rightarrow> node list" where
  "EpsilonClosure ord h inputNode =
     (let eTransitions = epsilonRecursive h inputNode [] in
      map snd (range_map ord eTransitions))"

text \<open>
  Two facts hold of the map that \<^verbatim>\<open>epsilonRecursive\<close> builds: its keys are distinct, and
  every value is stored under its own name.
\<close>

definition closure_inv :: "(string \<times> node) list \<Rightarrow> bool" where
  "closure_inv e = (distinct (map fst e) \<and> list_all (\<lambda>(k, v). Name v = k) e)"

section \<open>Successors and the deterministic walk\<close>

text \<open>
  \<^verbatim>\<open>GetNext\<close> reads the slice for the symbol, appends the epsilon closure of \<^verbatim>\<open>head\<close>
  itself, and only then looks at \<^verbatim>\<open>ok\<close>.
\<close>

definition GetNext :: "range_order \<Rightarrow> heap \<Rightarrow> node \<Rightarrow> string \<Rightarrow> node list" where
  "GetNext ord h head a =
     (let r = index_edges h head a;
          ok = (r \<noteq> None);
          nextNodes = slice_of r @ EpsilonClosure ord h head
      in if \<not> ok then [] else nextNodes)"

text \<open>
  \<^verbatim>\<open>DFAaccepts\<close> calls \<^verbatim>\<open>GetNext\<close> once for every symbol, and every such call ranges
  over a closure map once. Go chooses the order of each range anew, so the walk takes a
  sequence of orders: \<open>ords 0\<close> is the order of the range in the first step, and
  \<open>later_orders ords\<close> are the orders of the steps after it. \<open>same_order ord\<close> is the
  sequence that uses \<open>ord\<close> in every step.
\<close>

type_synonym range_orders = "nat \<Rightarrow> range_order"

definition later_orders :: "range_orders \<Rightarrow> range_orders" where
  "later_orders ords = (\<lambda>i. ords (Suc i))"

definition same_order :: "range_order \<Rightarrow> range_orders" where
  "same_order ord = (\<lambda>i. ord)"

fun DFAaccepts :: "range_orders \<Rightarrow> heap \<Rightarrow> node \<Rightarrow> string list \<Rightarrow> bool" where
  "DFAaccepts ords h head [] = Final head"
| "DFAaccepts ords h head (nextLiteral # rest) =
     (case GetNext (ords 0) h head nextLiteral of
        [] \<Rightarrow> False
      | nextNode0 # _ \<Rightarrow> DFAaccepts (later_orders ords) h nextNode0 rest)"

section \<open>Composite names\<close>

text \<open>
  \<^verbatim>\<open>compositNodeName\<close> sorts the names (\<^verbatim>\<open>sort.Strings\<close>: bytewise lexicographic order)
  and concatenates them with nothing in between.
\<close>

definition compositNodeName :: "string list \<Rightarrow> string" where
  "compositNodeName names = concat (sort names)"

text \<open>A set of names no member of which is a prefix of another, and none empty.\<close>

definition prefix_free :: "string set \<Rightarrow> bool" where
  "prefix_free S = ([] \<notin> S \<and> (\<forall>x \<in> S. \<forall>y \<in> S. prefix x y \<longrightarrow> x = y))"

section \<open>Determinization\<close>

text \<open>
  \<^verbatim>\<open>recursiveMerge\<close> calls itself without a bound that the source states, so the model
  carries fuel: \<open>None\<close> is a run that did not return within the fuel, \<open>Some (Inl p)\<close> a
  panic, \<open>Some (Inr x)\<close> the result \<open>x\<close>.
\<close>

fun for_each_fuel ::
  "('a \<Rightarrow> 's \<Rightarrow> (panic + 's) option) \<Rightarrow> 'a list \<Rightarrow> 's \<Rightarrow> (panic + 's) option"
where
  "for_each_fuel body [] s = Some (Inr s)"
| "for_each_fuel body (x # xs) s =
     (case body x s of
        None \<Rightarrow> None
      | Some (Inl p) \<Rightarrow> Some (Inl p)
      | Some (Inr s') \<Rightarrow> for_each_fuel body xs s')"

text \<open>
  \<^verbatim>\<open>makeCompositNode\<close> appends the closures of the start nodes, names the composite node
  after them, and returns the node of that name from \<^verbatim>\<open>nodes\<close> if there is one (with
  an error, here \<open>True\<close>), or else a node that \<^verbatim>\<open>CreateNode\<close> makes.
\<close>

definition makeCompositNode ::
  "range_order \<Rightarrow> world \<Rightarrow> node list \<Rightarrow> panic + world \<times> node \<times> node list \<times> bool"
where
  "makeCompositNode ord w startNodes =
     (let nodeList = concat (map (EpsilonClosure ord (fst w)) startNodes);
          newNameParts = map Name nodeList;
          newName = compositNodeName newNameParts
      in case index_nodes (snd w) newName of
           Some alreadyExistingNode \<Rightarrow> Inr (w, alreadyExistingNode, nodeList, True)
         | None \<Rightarrow>
             and_then (CreateNode w newName) (\<lambda>(w, newNode). Inr (w, newNode, nodeList, False)))"

text \<open>
  The two nested loops of \<^verbatim>\<open>recursiveMerge\<close> over the merged nodes and their tables: for
  every symbol of a merged node, the composite node's entry becomes that node's slice
  followed by itself.
\<close>

definition copy_transitions :: "range_order \<Rightarrow> node \<Rightarrow> node \<Rightarrow> heap \<Rightarrow> panic + heap" where
  "copy_transitions ord returnNode mergedNode h =
     for_each
       (\<lambda>(input, endNode) h.
          let exists = (index_edges h returnNode input \<noteq> None) in
          and_then (if \<not> exists then store_edges h returnNode input [] else Inr h)
            (\<lambda>h. store_edges h returnNode input
                    (slice_of (index_edges h mergedNode input) @ endNode)))
       (range_map ord (map_at h (Transitions mergedNode))) h"

text \<open>
  The body of the last loop: the entry for \<^verbatim>\<open>input\<close> becomes the one node that the
  recursive call returns for \<^verbatim>\<open>newNode[0]\<close>; indexing an empty slice panics.
\<close>

definition merge_successor ::
  "(world \<Rightarrow> node \<Rightarrow> (panic + world \<times> node) option) \<Rightarrow> node \<Rightarrow> string \<Rightarrow> world
     \<Rightarrow> (panic + world) option"
where
  "merge_successor recurse returnNode input w =
     (case slice_of (index_edges (fst w) returnNode input) of
        [] \<Rightarrow> Some (Inl IndexOutOfRange)
      | newNode0 # _ \<Rightarrow>
          (case recurse w newNode0 of
             None \<Rightarrow> None
           | Some (Inl p) \<Rightarrow> Some (Inl p)
           | Some (Inr ((h, DFA), merged)) \<Rightarrow>
               (case store_edges h returnNode input [merged] of
                  Inl p \<Rightarrow> Some (Inl p)
                | Inr h \<Rightarrow> Some (Inr (h, DFA)))))"

primrec recursiveMerge ::
  "nat \<Rightarrow> range_order \<Rightarrow> world \<Rightarrow> node \<Rightarrow> (panic + world \<times> node) option"
where
  "recursiveMerge 0 ord w head = None"
| "recursiveMerge (Suc fuel) ord w head =
     (let toBeMergedNodes = EpsilonClosure ord (fst w) head in
      case makeCompositNode ord w toBeMergedNodes of
        Inl p \<Rightarrow> Some (Inl p)
      | Inr (w, returnNode, mergedNodes, err) \<Rightarrow>
          if err then Some (Inr (w, returnNode))
          else
            (case for_each (copy_transitions ord returnNode) mergedNodes (fst w) of
               Inl p \<Rightarrow> Some (Inl p)
             | Inr h \<Rightarrow>
                 let returnNode = returnNode\<lparr>Final := False\<rparr>;
                     returnNode = fold (\<lambda>node r. if Final node then r\<lparr>Final := True\<rparr> else r)
                                    mergedNodes returnNode
                 in case for_each_fuel (merge_successor (recursiveMerge fuel ord) returnNode)
                           (map fst (range_map ord (map_at h (Transitions returnNode))))
                           (h, snd w) of
                      None \<Rightarrow> None
                    | Some (Inl p) \<Rightarrow> Some (Inl p)
                    | Some (Inr w) \<Rightarrow> Some (Inr (w, returnNode))))"

definition ToDFA :: "nat \<Rightarrow> range_order \<Rightarrow> heap \<Rightarrow> automata \<Rightarrow> (panic + world) option" where
  "ToDFA fuel ord h NFA =
     (let DFA = new_automata in
      case recursiveMerge fuel ord (h, DFA) (beginning NFA) of
        None \<Rightarrow> None
      | Some (Inl p) \<Rightarrow> Some (Inl p)
      | Some (Inr ((h, DFA), b)) \<Rightarrow> Some (Inr (h, DFA\<lparr>beginning := b\<rparr>)))"

section \<open>The general acceptance search\<close>

text \<open>
  \<^verbatim>\<open>Accepts\<close> makes the channel \<^verbatim>\<open>found\<close>, the memo \<^verbatim>\<open>checked\<close> (an outer map made with
  \<^verbatim>\<open>make\<close>, whose inner maps nothing ever makes), and a wait group of count one, and starts
  \<^verbatim>\<open>acceptsRoutine\<close> on the head as the first goroutine. What the goroutines share is the
  record \<open>search\<close>: \<open>found\<close> is true once the channel is closed (nothing is ever sent on
  it), \<open>started\<close> lists the goroutines started with \<^verbatim>\<open>go\<close>.

  \<open>acceptsRoutine\<close> is the body of one goroutine, run without interruption. The first
  goroutine runs alone until it starts another one, so for it this is exact. The source
  reads a field \<^verbatim>\<open>EpsilonTransition\<close> that the type \<^verbatim>\<open>node\<close> does not declare, and a second
  result \<^verbatim>\<open>err\<close> of \<^verbatim>\<open>GetNext\<close> that \<^verbatim>\<open>GetNext\<close> does not return; both are parameters here.
\<close>

record search =
  found :: bool
  checked :: "string \<Rightarrow> (string list \<Rightarrow> bool option) option"
  wg :: int
  started :: "(node \<times> string list) list"

definition wg_Done :: "search \<Rightarrow> panic + search" where
  "wg_Done s = (if wg s - 1 < 0 then Inl NegativeWaitGroup else Inr (s\<lparr>wg := wg s - 1\<rparr>))"

definition go_acceptsRoutine :: "string list \<Rightarrow> node \<Rightarrow> search \<Rightarrow> search" where
  "go_acceptsRoutine input newNode s = s\<lparr>started := started s @ [(newNode, input)], wg := wg s + 1\<rparr>"

definition index_checked :: "search \<Rightarrow> string \<Rightarrow> string list \<Rightarrow> bool" where
  "index_checked s name input =
     (case checked s name of None \<Rightarrow> False | Some inner \<Rightarrow> inner input = Some True)"

definition store_checked :: "search \<Rightarrow> string \<Rightarrow> string list \<Rightarrow> panic + search" where
  "store_checked s name input =
     (case checked s name of
        None \<Rightarrow> Inl NilMapAssignment
      | Some inner \<Rightarrow> Inr (s\<lparr>checked := (checked s)(name \<mapsto> inner(input \<mapsto> True))\<rparr>))"

definition acceptsRoutine ::
  "(node \<Rightarrow> node list) \<Rightarrow> (heap \<Rightarrow> node \<Rightarrow> string \<Rightarrow> bool) \<Rightarrow> range_order \<Rightarrow> heap
     \<Rightarrow> node \<Rightarrow> string list \<Rightarrow> search \<Rightarrow> panic + search"
where
  "acceptsRoutine EpsilonTransition GetNext_err ord h head input s =
     (if found s then Inr s
      else
        and_then
          (if input = [] then wg_Done (if Final head then s\<lparr>found := True\<rparr> else s) else Inr s)
          (\<lambda>s.
             if index_checked s (Name head) input then wg_Done s
             else
               and_then (store_checked s (Name head) input)
                 (\<lambda>s.
                    case input of
                      [] \<Rightarrow> Inl IndexOutOfRange
                    | nextRune # rest \<Rightarrow>
                        let nextNodes = GetNext ord h head nextRune;
                            err = GetNext_err h head nextRune;
                            eTransition = EpsilonTransition head
                        in if err \<and> eTransition = [] then wg_Done s
                           else
                             wg_Done
                               (fold (go_acceptsRoutine input) (EpsilonTransition head)
                                  (fold (go_acceptsRoutine rest) nextNodes s)))))"

definition Accepts_search :: search where
  "Accepts_search = \<lparr>found = False, checked = Map.empty, wg = 1, started = []\<rparr>"

section \<open>Automata used as concrete inputs\<close>

text \<open>
  \<open>made_automata\<close> is an automaton whose \<^verbatim>\<open>nodes\<close> map has been made, which
  \<^verbatim>\<open>new(automata)\<close> does not do.

  Scenario A is \<^verbatim>\<open>{(S0,a,S1), (S1,b,S1)}\<close> with final state \<^verbatim>\<open>S1\<close>; scenario B is
  \<^verbatim>\<open>{(S0,epsilon,S1), (S0,a,S2), (S1,b,S3)}\<close> with final states \<^verbatim>\<open>S2\<close> and \<^verbatim>\<open>S3\<close>. Their
  nodes and tables are written out here. \<open>loop_heap\<close> holds two nodes on an epsilon
  cycle, \<open>stuck_heap\<close> one final node whose entry for \<^verbatim>\<open>a\<close> lists no destination.
\<close>

definition made_automata :: automata where
  "made_automata = \<lparr>beginning = zero_node, nodes = Some []\<rparr>"

definition A0 :: node where "A0 = \<lparr>Name = ''S0'', Transitions = Some 0, Final = False\<rparr>"
definition A1 :: node where "A1 = \<lparr>Name = ''S1'', Transitions = Some 1, Final = True\<rparr>"

definition scenario_A :: heap where
  "scenario_A = [[(''a'', [A1])], [(''b'', [A1])]]"

definition B0 :: node where "B0 = \<lparr>Name = ''S0'', Transitions = Some 0, Final = False\<rparr>"
definition B1 :: node where "B1 = \<lparr>Name = ''S1'', Transitions = Some 1, Final = False\<rparr>"
definition B2 :: node where "B2 = \<lparr>Name = ''S2'', Transitions = Some 2, Final = True\<rparr>"
definition B3 :: node where "B3 = \<lparr>Name = ''S3'', Transitions = Some 3, Final = True\<rparr>"

definition scenario_B :: heap where
  "scenario_B = [[('' '', [B1]), (''a'', [B2])], [(''b'', [B3])], [], []]"

definition scenario_B_automata :: automata where
  "scenario_B_automata =
     \<lparr>beginning = B0, nodes = Some [(''S0'', B0), (''S1'', B1), (''S2'', B2), (''S3'', B3)]\<rparr>"

definition L0 :: node where "L0 = \<lparr>Name = ''S0'', Transitions = Some 0, Final = False\<rparr>"
definition L1 :: node where "L1 = \<lparr>Name = ''S1'', Transitions = Some 1, Final = True\<rparr>"

definition loop_heap :: heap where
  "loop_heap = [[('' '', [L1])], [('' '', [L0])]]"

definition stuck_node :: node where
  "stuck_node = \<lparr>Name = ''q'', Transitions = Some 0, Final = True\<rparr>"

definition stuck_heap :: heap where
  "stuck_heap = [[(''a'', [])]]"

section \<open>Properties of construction\<close>

lemma CreateNode_nil: "nodes (snd w) = None \<Longrightarrow> CreateNode w a = Inl NilMapAssignment"
  by (cases w) (simp add: CreateNode_def Let_def)

lemma AddTransition_nil: "nodes (snd w) = None \<Longrightarrow> AddTransition w t = Inl NilMapAssignment"
  by (cases t) (simp add: AddTransition_def index_nodes_def CreateNode_nil and_then_def)

lemma for_each_AddTransition_nil:
  "nodes (snd w) = None \<Longrightarrow>
   for_each (\<lambda>newTransition w. map_sum id fst (AddTransition w newTransition)) ts w =
     (if ts = [] then Inr w else Inl NilMapAssignment)"
  by (cases ts) (simp_all add: AddTransition_nil and_then_def)

text \<open>The loop over the finish map leaves the automaton as it was.\<close>

lemma fold_mark_finish: "fold mark_finish es automata = automata"
  by (induction es) (auto simp: mark_finish_def Let_def)

text \<open>
  \<^verbatim>\<open>AddTransition\<close> adds no entry to any table: the store after it is the store before
  it followed by the empty tables of the nodes it created.
\<close>

lemma CreateNode_heap:
  "CreateNode (h, automata) a = Inr ((h', automata'), n) \<Longrightarrow> h' = h @ [[]]"
  by (auto simp: CreateNode_def Let_def split: option.splits)

lemma AddTransition_stores_nothing:
  assumes "AddTransition (h, automata) t = Inr ((h', automata'), n)"
  shows "concat h' = concat h"
proof -
  obtain t0 t1 t2 where t: "t = (t0, t1, t2)" by (cases t)
  have step: "concat h2 = concat h1"
    if "(case r of Some n \<Rightarrow> Inr ((h1, a1), n) | None \<Rightarrow> CreateNode (h1, a1) x) = Inr ((h2, a2), m)"
    for r h1 a1 x h2 a2 m
    using that by (cases r) (auto dest: CreateNode_heap)
  from assms obtain h1 a1 m where
    one: "(case index_nodes automata t0 of Some n \<Rightarrow> Inr ((h, automata), n)
           | None \<Rightarrow> CreateNode (h, automata) t0) = Inr ((h1, a1), m)" and
    two: "(case index_nodes automata t2 of Some n \<Rightarrow> Inr ((h1, a1), n)
           | None \<Rightarrow> CreateNode (h1, a1) t2) = Inr ((h', automata'), n)"
    unfolding t AddTransition_def and_then_def Let_def
    by (auto split: sum.splits)
  from step[OF one] step[OF two] show ?thesis by simp
qed

text \<open>
  C7. The claim: for every list of triples, every start name and every finals list,
  \<^verbatim>\<open>MakeAutomata\<close> completes without failure, creating the states it has not seen.
  The code: \<^verbatim>\<open>new(automata)\<close> leaves \<^verbatim>\<open>nodes\<close> the nil map and nothing makes it, so the
  first \<^verbatim>\<open>CreateNode\<close> panics, and every call reaches one: on the first triple, or, with
  no triples, on the start name. \<^verbatim>\<open>MakeAutomata\<close> panics on every input.
\<close>

theorem MakeAutomata_always_panics:
  "MakeAutomata ord h transitions beginningName finishStates = Inl NilMapAssignment"
proof -
  have n: "nodes (snd (h, new_automata)) = None" by (simp add: new_automata_def)
  show ?thesis
    unfolding MakeAutomata_def Let_def for_each_AddTransition_nil[OF n]
    by (cases transitions)
      (simp_all add: and_then_def fold_mark_finish index_nodes_def new_automata_def CreateNode_def)
qed

text \<open>
  C1. The claim: after \<^verbatim>\<open>MakeAutomata\<close> returns, every triple \<^verbatim>\<open>(from, symbol, to)\<close> has
  \<^verbatim>\<open>to\<close> among the destinations of \<^verbatim>\<open>from\<close> for \<^verbatim>\<open>symbol\<close>.
  The code at the triple \<^verbatim>\<open>(S0, a, S1)\<close>: \<^verbatim>\<open>MakeAutomata\<close> panics; and \<^verbatim>\<open>AddTransition\<close>
  on an automaton whose \<^verbatim>\<open>nodes\<close> map has been made creates \<^verbatim>\<open>S0\<close> and \<^verbatim>\<open>S1\<close> and
  leaves the table of \<^verbatim>\<open>S0\<close> without an entry for \<^verbatim>\<open>a\<close>.
\<close>

theorem AddTransition_records_no_destination:
  "MakeAutomata id [] [(''S0'', ''a'', ''S1'')] ''S0'' [''S1''] = Inl NilMapAssignment
   \<and> (case AddTransition ([], made_automata) (''S0'', ''a'', ''S1'') of
        Inl p \<Rightarrow> False
      | Inr ((h, automata), n) \<Rightarrow>
          (case index_nodes automata ''S0'' of
             None \<Rightarrow> False
           | Some s0 \<Rightarrow> index_edges h s0 ''a'' = None))"
  by code_simp

text \<open>
  C2. The claim: every name in the finals list that appears in a triple names a state
  that is final after construction.
  The code at the triple \<^verbatim>\<open>(S0, a, S1)\<close> with finals \<^verbatim>\<open>[S1]\<close>: \<^verbatim>\<open>MakeAutomata\<close> panics;
  and the loop over the finish map, run on the automaton that holds \<^verbatim>\<open>S0\<close> and a
  non-final \<^verbatim>\<open>S1\<close>, leaves \<^verbatim>\<open>S1\<close> non-final.
\<close>

theorem MakeAutomata_marks_no_final:
  "MakeAutomata id [] [(''S0'', ''a'', ''S1'')] ''S0'' [''S1''] = Inl NilMapAssignment
   \<and> (case AddTransition ([], made_automata) (''S0'', ''a'', ''S1'') of
        Inl p \<Rightarrow> False
      | Inr ((h, automata), n) \<Rightarrow>
          map_option Final
            (index_nodes (fold mark_finish (range_map id [(''S1'', True)]) automata) ''S1'')
          = Some False)"
  by code_simp

section \<open>Properties of the epsilon closure\<close>

lemma closure_inv_update: "closure_inv e \<Longrightarrow> closure_inv (AList.update (Name n) n e)"
proof -
  have "set (AList.update k v al) \<subseteq> insert (k, v) (set al)"
    for k :: string and v :: node and al
    by (induction al) auto
  then have "set (AList.update (Name n) n e) \<subseteq> insert (Name n, n) (set e)" .
  moreover assume "closure_inv e"
  ultimately show ?thesis by (auto simp: closure_inv_def distinct_update list_all_iff)
qed

lemma epsilon_closure_inv:
  "closure_inv e \<Longrightarrow> closure_inv (epsilonRecursive h n e)"
  "closure_inv e \<Longrightarrow> closure_inv (epsilonRange h ns e)"
proof (induction h n e and h ns e rule: epsilonRecursive_epsilonRange.induct)
  case (1 h inputNode eTransitions)
  then show ?case by (simp add: closure_inv_update)
next
  case (2 h eTransitions)
  then show ?case by simp
next
  case (3 h node rest eTransitions)
  show ?case
  proof (cases "map_of eTransitions (Name node) = None")
    case True
    have "closure_inv (epsilonRecursive h node eTransitions)"
      using 3(1)[OF refl _ 3(4)] True by simp
    then have "closure_inv (epsilonRange h rest (epsilonRecursive h node eTransitions))"
      using 3(2)[OF refl] True by simp
    with True show ?thesis by (simp add: Let_def del: epsilonRecursive.simps)
  next
    case False
    then have "closure_inv (epsilonRange h rest eTransitions)"
      using 3(3)[OF refl _ 3(4)] by simp
    with False show ?thesis by (simp add: Let_def del: epsilonRecursive.simps)
  qed
qed

text \<open>An entry of the map stays: the loop enters a node only under a name that is no key.\<close>

lemma epsilon_keeps:
  "map_of e k = Some v \<Longrightarrow> k \<noteq> Name n \<Longrightarrow> map_of (epsilonRecursive h n e) k = Some v"
  "map_of e k = Some v \<Longrightarrow> map_of (epsilonRange h ns e) k = Some v"
proof (induction h n e and h ns e rule: epsilonRecursive_epsilonRange.induct)
  case (1 h inputNode eTransitions)
  then show ?case by (simp add: update_conv')
next
  case (2 h eTransitions)
  then show ?case by simp
next
  case (3 h node rest eTransitions)
  show ?case
  proof (cases "map_of eTransitions (Name node) = None")
    case True
    with 3(4) have "k \<noteq> Name node" by auto
    with 3 True show ?thesis by (simp add: Let_def)
  next
    case False
    with 3 show ?thesis by (simp add: Let_def)
  qed
qed

lemma epsilon_has_self: "map_of (epsilonRecursive h n e) (Name n) = Some n"
  by (simp add: epsilon_keeps(2) update_conv')

lemma range_map_keys:
  assumes "set (ord (map fst m)) \<subseteq> set (map fst m)"
  shows "map fst (range_map ord m) = ord (map fst m)"
proof -
  have "map fst (List.map_filter (\<lambda>k. map_option (Pair k) (map_of m k)) ks) = ks"
    if "set ks \<subseteq> fst ` set m" for ks
    using that
  proof (induction ks)
    case Nil
    then show ?case by (simp add: List.map_filter_simps)
  next
    case (Cons k ks)
    then obtain v where "map_of m k = Some v"
      by (cases "map_of m k") (auto simp: map_of_eq_None_iff)
    with Cons show ?case by (simp add: List.map_filter_simps)
  qed
  with assms show ?thesis by (simp add: range_map_def)
qed

lemma range_map_set:
  assumes "distinct (map fst m)" "set (ord (map fst m)) = set (map fst m)"
  shows "set (range_map ord m) = set m"
proof -
  have "(k, v) \<in> set (range_map ord m) \<longleftrightarrow> (k, v) \<in> set m" for k v
  proof
    assume "(k, v) \<in> set (range_map ord m)"
    then show "(k, v) \<in> set m"
      by (auto simp: range_map_def List.map_filter_def dest: map_of_SomeD)
  next
    assume kv: "(k, v) \<in> set m"
    with assms(1) have "map_of m k = Some v" by simp
    moreover from kv assms(2) have "k \<in> set (ord (map fst m))" by force
    ultimately show "(k, v) \<in> set (range_map ord m)"
      by (force simp: range_map_def List.map_filter_def)
  qed
  then show ?thesis by auto
qed

lemma permutes_keys_set: "permutes_keys ord \<Longrightarrow> set (ord ks) = set ks"
  by (metis permutes_keys_def set_mset_mset)

lemma permutes_keys_distinct: "permutes_keys ord \<Longrightarrow> distinct (ord ks) = distinct ks"
  by (metis permutes_keys_def mset_eq_imp_distinct_iff)

lemma permutes_keys_rev: "permutes_keys rev"
  by (simp add: permutes_keys_def)

lemma closure_range:
  assumes "permutes_keys ord"
  shows "set (range_map ord (epsilonRecursive h n [])) = set (epsilonRecursive h n [])"
proof -
  have "closure_inv (epsilonRecursive h n [])"
    by (rule epsilon_closure_inv) (simp add: closure_inv_def)
  with assms show ?thesis
    by (intro range_map_set) (auto simp: closure_inv_def permutes_keys_set)
qed

lemma closure_names:
  assumes "permutes_keys ord"
  shows "map Name (EpsilonClosure ord h n) = ord (map fst (epsilonRecursive h n []))"
proof -
  let ?e = "epsilonRecursive h n []"
  have inv: "closure_inv ?e" by (rule epsilon_closure_inv) (simp add: closure_inv_def)
  have "map Name (map snd (range_map ord ?e)) = map fst (range_map ord ?e)"
    using inv closure_range[OF assms, of h n] by (auto simp: closure_inv_def list_all_iff)
  also have "\<dots> = ord (map fst ?e)"
    using assms by (intro range_map_keys) (simp add: permutes_keys_set)
  finally show ?thesis by (simp add: EpsilonClosure_def)
qed

lemma closure_self:
  assumes "permutes_keys ord"
  shows "n \<in> set (EpsilonClosure ord h n)"
proof -
  have "(Name n, n) \<in> set (epsilonRecursive h n [])"
    using epsilon_has_self[of h n "[]"] by (rule map_of_SomeD)
  with closure_range[OF assms, of h n] show ?thesis by (force simp: EpsilonClosure_def)
qed

text \<open>
  C9. For every state \<open>s\<close> of any automaton, the epsilon closure of \<open>s\<close> contains \<open>s\<close>
  itself, and the returned collection contains no duplicate states: no node occurs in it
  twice, and no two of its nodes have the same name. This holds for every order in which
  \<^verbatim>\<open>range\<close> may visit the map, and on stores with epsilon cycles.
\<close>

theorem EpsilonClosure_reflexive_distinct:
  assumes "permutes_keys ord"
  shows "inputNode \<in> set (EpsilonClosure ord h inputNode)
       \<and> distinct (EpsilonClosure ord h inputNode)
       \<and> distinct (map Name (EpsilonClosure ord h inputNode))"
proof -
  have inv: "closure_inv (epsilonRecursive h inputNode [])"
    by (rule epsilon_closure_inv) (simp add: closure_inv_def)
  have d: "distinct (map Name (EpsilonClosure ord h inputNode))"
    using inv assms by (simp add: closure_names permutes_keys_distinct closure_inv_def)
  from d have "distinct (EpsilonClosure ord h inputNode)" by (simp add: distinct_map)
  with d closure_self[OF assms] show ?thesis by simp
qed

theorem EpsilonClosure_reflexive_distinct_witness:
  "permutes_keys rev
   \<and> EpsilonClosure rev loop_heap L0 = [L1, L0]
   \<and> L0 \<in> set (EpsilonClosure rev loop_heap L0)
   \<and> distinct (EpsilonClosure rev loop_heap L0)
   \<and> distinct (map Name (EpsilonClosure rev loop_heap L0))"
proof -
  have "EpsilonClosure rev loop_heap L0 = [L1, L0]" by code_simp
  with EpsilonClosure_reflexive_distinct[OF permutes_keys_rev, of L0 loop_heap]
  show ?thesis by (simp add: permutes_keys_rev)
qed

section \<open>Properties of the successors and of the deterministic walk\<close>



text \<open>
  Where the table of the current state has no entry for the symbol, and where the entry
  lists a destination, the walk does what is asked of it: on the empty input it returns
  whether the current state is final, on a symbol without an entry it returns false, and
  on a symbol whose entry lists a destination it goes on from the first destination with
  the rest of the input, whatever the orders are.
\<close>

lemma DFAaccepts_steps:
  "DFAaccepts ords h s [] = Final s
   \<and> (index_edges h s a = None \<longrightarrow> DFAaccepts ords h s (a # w) = False)
   \<and> (\<forall>d ds. index_edges h s a = Some (d # ds) \<longrightarrow>
         DFAaccepts ords h s (a # w) = DFAaccepts (later_orders ords) h d w)"
  by (auto simp: GetNext_def Let_def slice_of_def)

text \<open>Scenario A, whose entries all list one destination, for every sequence of orders.\<close>

lemma DFAaccepts_scenario_A:
  "DFAaccepts ords scenario_A A0 [''a'']
   \<and> DFAaccepts ords scenario_A A0 [''a'', ''b'', ''b'']
   \<and> \<not> DFAaccepts ords scenario_A A0 []
   \<and> \<not> DFAaccepts ords scenario_A A0 [''b'']"
  by (simp add: GetNext_def Let_def slice_of_def index_edges_def map_at_def
      scenario_A_def A0_def A1_def)

text \<open>
  The closure of \<open>stuck_node\<close> is the node alone, in whatever order \<^verbatim>\<open>range\<close> visits the
  map, so the walk from it accepts \<^verbatim>\<open>[a]\<close> in every run.
\<close>

lemma EpsilonClosure_stuck_node:
  assumes "permutes_keys ord"
  shows "EpsilonClosure ord stuck_heap stuck_node = [stuck_node]"
proof -
  have e: "epsilonRecursive stuck_heap stuck_node [] = [(''q'', stuck_node)]"
    by (simp add: stuck_heap_def stuck_node_def index_edges_def map_at_def slice_of_def
        epsilon_def)
  from assms have "mset (ord [''q'']) = mset [''q'']" by (simp add: permutes_keys_def)
  then have "ord [''q''] = [''q'']" by (metis mset_single_iff_right mset.simps(1) mset.simps(2))
  with e show ?thesis
    by (simp add: EpsilonClosure_def range_map_def List.map_filter_simps)
qed

lemma DFAaccepts_stuck_node_every_order:
  assumes "permutes_keys (ords 0)"
  shows "DFAaccepts ords stuck_heap stuck_node [''a'']"
proof -
  have "index_edges stuck_heap stuck_node ''a'' = Some []"
    by (simp add: stuck_heap_def stuck_node_def index_edges_def map_at_def)
  then have "GetNext (ords 0) stuck_heap stuck_node ''a'' = [stuck_node]"
    by (simp add: GetNext_def Let_def slice_of_def EpsilonClosure_stuck_node[OF assms])
  then show ?thesis by (simp add: stuck_node_def)
qed


section \<open>Properties of composite names\<close>

text \<open>
  C6, as the claim states it, fails: the sets \<^verbatim>\<open>{a, b}\<close> and \<^verbatim>\<open>{ab}\<close> differ and have
  the same composite name \<^verbatim>\<open>ab\<close>.
\<close>

theorem compositNodeName_collision:
  "set [''a'', ''b''] \<noteq> set [''ab'']
   \<and> compositNodeName [''a'', ''b''] = compositNodeName [''ab'']"
  by (simp add: compositNodeName_def)

lemma concat_prefix_free_inj:
  assumes "prefix_free S" "set xs \<subseteq> S" "set ys \<subseteq> S" "concat xs = concat ys"
  shows "xs = ys"
  using assms(2-)
proof (induction xs arbitrary: ys)
  case Nil
  then have "\<forall>y \<in> set ys. y = []" by simp
  with Nil(2) assms(1) show ?case by (cases ys) (auto simp: prefix_free_def)
next
  case (Cons x xs)
  from Cons(2) assms(1) have xne: "x \<noteq> []" by (auto simp: prefix_free_def)
  with Cons(4) obtain y ys' where ys: "ys = y # ys'" by (cases ys) auto
  from Cons(4) ys have eq: "x @ concat xs = y @ concat ys'" by simp
  then have "prefix x y \<or> prefix y x"
    by (metis append_eq_append_conv2 prefixI)
  with Cons(2,3) ys assms(1) have xy: "x = y" by (auto simp: prefix_free_def)
  with eq have "concat xs = concat ys'" by simp
  with Cons ys xy show ?case by auto
qed

text \<open>The composite name does not depend on the order of the names, whatever they are.\<close>

lemma compositNodeName_order_independent:
  assumes "mset xs = mset ys"
  shows "compositNodeName xs = compositNodeName ys"
proof -
  from assms have "sort xs = sort ys" by (simp add: properties_for_sort)
  then show ?thesis by (simp add: compositNodeName_def)
qed

text \<open>
  C6, amended. The composite name does not depend on the order of the names. On names
  none of which is empty or a prefix of another (the source asks for names that do not
  combine to other names), two lists of names have the same composite name exactly when
  they hold the same names, each as often.
\<close>

theorem compositNodeName_injective_on_prefix_free:
  assumes "prefix_free (set xs \<union> set ys)"
  shows "(compositNodeName xs = compositNodeName ys \<longleftrightarrow> mset xs = mset ys)
       \<and> (distinct xs \<and> distinct ys \<longrightarrow>
            (compositNodeName xs = compositNodeName ys \<longleftrightarrow> set xs = set ys))"
proof -
  have key: "compositNodeName xs = compositNodeName ys \<longleftrightarrow> mset xs = mset ys"
  proof
    assume "compositNodeName xs = compositNodeName ys"
    then have "concat (sort xs) = concat (sort ys)" by (simp add: compositNodeName_def)
    with assms have "sort xs = sort ys"
      by (intro concat_prefix_free_inj[where S = "set xs \<union> set ys"]) auto
    then show "mset xs = mset ys" by (metis mset_sort)
  next
    assume "mset xs = mset ys"
    then have "sort xs = sort ys" by (simp add: properties_for_sort)
    then show "compositNodeName xs = compositNodeName ys" by (simp add: compositNodeName_def)
  qed
  then show ?thesis by (auto simp: set_eq_iff_mset_eq_distinct)
qed

theorem compositNodeName_injective_witness:
  "prefix_free (set [''S0'', ''S1''] \<union> set [''S1'', ''S0''])
   \<and> distinct [''S0'', ''S1''] \<and> distinct [''S1'', ''S0'']
   \<and> set [''S0'', ''S1''] = set [''S1'', ''S0'']
   \<and> compositNodeName [''S0'', ''S1''] = compositNodeName [''S1'', ''S0'']
   \<and> prefix_free (set [''S0'', ''S1''] \<union> set [''S0''])
   \<and> distinct [''S0'']
   \<and> set [''S0'', ''S1''] \<noteq> set [''S0'']
   \<and> compositNodeName [''S0'', ''S1''] \<noteq> compositNodeName [''S0'']"
proof -
  have 1: "prefix_free (set [''S0'', ''S1''] \<union> set [''S1'', ''S0''])"
    by (auto simp: prefix_free_def)
  have 2: "prefix_free (set [''S0'', ''S1''] \<union> set [''S0''])"
    by (auto simp: prefix_free_def)
  have 3: "set [''S0'', ''S1''] = set [''S1'', ''S0'']" by auto
  have 4: "set [''S0'', ''S1''] \<noteq> set [''S0'']" by auto
  have 5: "distinct [''S0'', ''S1''] \<and> distinct [''S1'', ''S0''] \<and> distinct [''S0'']"
    by simp
  from compositNodeName_injective_on_prefix_free[OF 1] 3 5
  have a: "compositNodeName [''S0'', ''S1''] = compositNodeName [''S1'', ''S0'']"
    by blast
  from compositNodeName_injective_on_prefix_free[OF 2] 4 5
  have b: "compositNodeName [''S0'', ''S1''] \<noteq> compositNodeName [''S0'']"
    by blast
  from 1 2 3 4 5 a b show ?thesis by blast
qed

section \<open>Properties of determinization\<close>

lemma makeCompositNode_nil:
  "nodes (snd w) = None \<Longrightarrow> makeCompositNode ord w startNodes = Inl NilMapAssignment"
  by (simp add: makeCompositNode_def Let_def index_nodes_def CreateNode_nil and_then_def)

text \<open>
  C4. The claim: \<^verbatim>\<open>Accepts\<close> on an automaton and on the automaton that \<^verbatim>\<open>ToDFA\<close> returns
  for it give the same boolean.
  The code: \<^verbatim>\<open>ToDFA\<close> starts from \<^verbatim>\<open>new(automata)\<close>, whose \<^verbatim>\<open>nodes\<close> map is nil, and the
  first \<^verbatim>\<open>makeCompositNode\<close> calls \<^verbatim>\<open>CreateNode\<close> on it. With any fuel to run at all,
  \<^verbatim>\<open>ToDFA\<close> panics on every automaton and returns none.
\<close>

theorem ToDFA_always_panics:
  "ToDFA (Suc fuel) ord h NFA = Some (Inl NilMapAssignment)"
  by (simp add: ToDFA_def Let_def makeCompositNode_nil new_automata_def)

text \<open>
  With the \<^verbatim>\<open>nodes\<close> map made, and every range visiting the keys in the order in which
  they were entered, \<^verbatim>\<open>recursiveMerge\<close> on scenario B returns a composite start node from
  which the walk rejects \<^verbatim>\<open>[b]\<close>, an input that scenario B accepts: the node that
  \<^verbatim>\<open>makeCompositNode\<close> finds again is the copy stored at creation, whose flag was never
  set.
\<close>

lemma recursiveMerge_scenario_B_rejects_b:
  "(case recursiveMerge 10 id (scenario_B, made_automata) B0 of
      Some (Inr ((h, DFA), start)) \<Rightarrow> DFAaccepts (same_order id) h start [''b''] = False
    | _ \<Rightarrow> False)"
  by code_simp

text \<open>
  C5. The claim: no transition table of a determinized automaton has an entry for the
  epsilon symbol.
  The code on scenario B: \<^verbatim>\<open>ToDFA\<close> panics and returns no automaton; and with the
  \<^verbatim>\<open>nodes\<close> map made, \<^verbatim>\<open>recursiveMerge\<close> copies every key of the merged nodes, the
  epsilon symbol among them, so the composite start node has an entry for it.
\<close>

theorem recursiveMerge_keeps_epsilon_entry:
  "ToDFA 10 id scenario_B scenario_B_automata = Some (Inl NilMapAssignment)
   \<and> (case recursiveMerge 10 id (scenario_B, made_automata) B0 of
        Some (Inr ((h, DFA), start)) \<Rightarrow> index_edges h start epsilon \<noteq> None
      | _ \<Rightarrow> False)"
  by code_simp

section \<open>Properties of the general acceptance search\<close>

text \<open>
  C3. The claim: for every automaton and every input, \<^verbatim>\<open>Accepts\<close> raises no error and
  returns one boolean.
  The code: the first goroutine finds \<^verbatim>\<open>found\<close> open, reads \<^verbatim>\<open>checked[head.Name][input]\<close>
  as false because the inner map is nil, and then assigns to that nil map. It panics on
  every head and every input, before it reads a symbol or starts another goroutine,
  whatever \<^verbatim>\<open>EpsilonTransition\<close> and \<^verbatim>\<open>err\<close> are.
\<close>

theorem Accepts_first_goroutine_panics:
  "acceptsRoutine EpsilonTransition GetNext_err ord h head input Accepts_search
     = Inl NilMapAssignment"
  by (simp add: acceptsRoutine_def Accepts_search_def wg_Done_def and_then_def
      index_checked_def store_checked_def)

end
